theory Spec2Isabelle
  imports Main "HOL-Library.Monad_Syntax"
begin

text \<open>
  A model of the configuration-file package \<open>conf\<close>: the configuration with its four
  operations, comment stripping, the separator search and the line-oriented parser
  \<open>Read\<close> with the two loading entry points. Functions keep the names they have in the Go
  source. A function that changes the configuration in place returns the new
  configuration next to its result, a panic of the Go run time is the value \<open>None\<close>, and
  an error returned is a value of \<open>os_Error\<close>.
\<close>

section \<open>Strings of bytes and the library functions the package calls\<close>

text \<open>
  A Go string is a sequence of bytes, here a \<^typ>\<open>string\<close> (a list of 8-bit characters).
  Indexing and slicing a Go string outside its bounds is a run-time panic; the two
  operations below return \<open>None\<close> for it, so that a panic is a value of the model.
\<close>

definition byte_at :: "string \<Rightarrow> int \<Rightarrow> char option" where
  "byte_at s i = (if 0 \<le> i \<and> i < int (length s) then Some (s ! nat i) else None)"

definition slice :: "string \<Rightarrow> int \<Rightarrow> int \<Rightarrow> string option" where
  "slice s lo hi =
     (if 0 \<le> lo \<and> lo \<le> hi \<and> hi \<le> int (length s)
      then Some (take (nat hi - nat lo) (drop (nat lo) s)) else None)"

text \<open>
  \<open>strings.ToLower\<close> on ASCII text: the letters \<open>A\<close> to \<open>Z\<close> go to \<open>a\<close> to \<open>z\<close>, every other
  byte stays.
\<close>

definition toLower_byte :: "char \<Rightarrow> char" where
  "toLower_byte b =
     (case map_of (zip ''ABCDEFGHIJKLMNOPQRSTUVWXYZ'' ''abcdefghijklmnopqrstuvwxyz'') b of
        Some l \<Rightarrow> l
      | None \<Rightarrow> b)"

definition ToLower :: "string \<Rightarrow> string" where
  "ToLower s = map toLower_byte s"

text \<open>
  \<open>strings.TrimSpace\<close> on ASCII text: leading and trailing tab, line feed, vertical tab,
  form feed, carriage return and space are removed.
\<close>

definition isSpace :: "char \<Rightarrow> bool" where
  "isSpace b = (b = CHR 0x09 \<or> b = CHR 0x0A \<or> b = CHR 0x0B \<or> b = CHR 0x0C
                \<or> b = CHR 0x0D \<or> b = CHR 0x20)"

definition TrimSpace :: "string \<Rightarrow> string" where
  "TrimSpace s = rev (dropWhile isSpace (rev (dropWhile isSpace s)))"

text \<open>
  \<open>strings.Index s sep\<close>: the index of the first occurrence of \<open>sep\<close> in \<open>s\<close>, or \<open>-1\<close>.
\<close>

fun Index :: "string \<Rightarrow> string \<Rightarrow> int" where
  "Index [] sep = (if sep = [] then 0 else - 1)"
| "Index (b # bs) sep =
     (if take (length sep) (b # bs) = sep then 0
      else (let r = Index bs sep in if r = - 1 then - 1 else r + 1))"

section \<open>The configuration and its operations (conf.go)\<close>

record ConfigFile =
  data :: "string \<rightharpoonup> (string \<rightharpoonup> string)"

definition SectionNotFound :: int where "SectionNotFound = 0"
definition OptionNotFound :: int where "OptionNotFound = 1"
definition MaxDepthReached :: int where "MaxDepthReached = 2"
definition BlankSection :: int where "BlankSection = 3"
definition CouldNotParse :: int where "CouldNotParse = 4"

definition DefaultSection :: string where
  "DefaultSection = ''default''"

text \<open>
  The two error records. Both have a field \<open>Reason\<close> in the source; field names of records
  are global here, so that of \<open>ReadError\<close> is called \<open>RReason\<close>.
\<close>

record GetError =
  Reason :: int
  ValueType :: string
  Value :: string
  Section :: string
  Option :: string

record ReadError =
  RReason :: int
  Line :: string

text \<open>
  The values of \<open>os.Error\<close> that occur: end of input, a failure of the underlying reader
  or file (carrying its message), and the two error records of the package.
\<close>

datatype os_Error = EOF | IOFailure string | ReadErr ReadError | GetErr GetError

definition AddSection :: "string \<Rightarrow> ConfigFile \<Rightarrow> bool \<times> ConfigFile" where
  "AddSection section c =
     (let section = ToLower section in
      if data c section \<noteq> None then (False, c)
      else (True, c\<lparr>data := (data c)(section \<mapsto> Map.empty)\<rparr>))"

text \<open>
  \<open>RemoveSection\<close> first deletes every option of the section, which leaves the section's
  map empty, and then deletes the section.
\<close>

definition RemoveSection :: "string \<Rightarrow> ConfigFile \<Rightarrow> bool \<times> ConfigFile" where
  "RemoveSection section c =
     (let section = ToLower section in
      if data c section = None then (False, c)
      else if section = DefaultSection then (False, c)
      else (let c1 = c\<lparr>data := (data c)(section \<mapsto> Map.empty)\<rparr>;
                c2 = c1\<lparr>data := (data c1)(section := None)\<rparr>
            in (True, c2)))"

text \<open>
  \<open>AddOption\<close> writes into the map of the section, which exists after \<open>AddSection\<close>;
  writing into the map of an absent section (a nil map in Go) is a panic, \<open>None\<close> here.
\<close>

definition AddOption ::
  "string \<Rightarrow> string \<Rightarrow> string \<Rightarrow> ConfigFile \<Rightarrow> (bool \<times> ConfigFile) option" where
  "AddOption section option val c =
     (let c1 = snd (AddSection section c);
          section = ToLower section;
          option = ToLower option
      in case data c1 section of
           None \<Rightarrow> None
         | Some opts \<Rightarrow>
             (let ok = (opts option \<noteq> None)
              in Some (\<not> ok, c1\<lparr>data := (data c1)(section \<mapsto> opts(option \<mapsto> val))\<rparr>)))"

definition RemoveOption :: "string \<Rightarrow> string \<Rightarrow> ConfigFile \<Rightarrow> bool \<times> ConfigFile" where
  "RemoveOption section option c =
     (let section = ToLower section;
          option = ToLower option
      in case data c section of
           None \<Rightarrow> (False, c)
         | Some opts \<Rightarrow>
             (let ok = (opts option \<noteq> None)
              in (ok, c\<lparr>data := (data c)(section \<mapsto> opts(option := None))\<rparr>)))"

definition NewConfigFile :: ConfigFile where
  "NewConfigFile = snd (AddSection DefaultSection \<lparr>data = Map.empty\<rparr>)"

text \<open>
  Modelled from the spec: the raw string lookup \<open>GetRawString\<close>, which \<open>Read\<close> calls and
  whose source file is not among the files at hand. Both names are lower-cased; the lookup
  fails with "section not found" when the section is absent and with "option not found"
  when the option is absent from an existing section; otherwise it returns the stored
  value unchanged.
\<close>

definition GetRawString :: "string \<Rightarrow> string \<Rightarrow> ConfigFile \<Rightarrow> os_Error + string" where
  "GetRawString section option c =
     (let section = ToLower section;
          option = ToLower option
      in case data c section of
           None \<Rightarrow> Inl (GetErr \<lparr>Reason = SectionNotFound, ValueType = '''', Value = '''',
                                 Section = section, Option = option\<rparr>)
         | Some opts \<Rightarrow>
             (case opts option of
                None \<Rightarrow> Inl (GetErr \<lparr>Reason = OptionNotFound, ValueType = '''', Value = '''',
                                      Section = section, Option = option\<rparr>)
              | Some v \<Rightarrow> Inr v))"

subsection \<open>stripComments and firstIndex\<close>

text \<open>
  One round of the loop of \<open>stripComments\<close>: the line is cut at the first occurrence of the
  marker \<open>m\<close>, when there is one.
\<close>

definition cut_at_marker :: "string \<Rightarrow> string \<Rightarrow> string option" where
  "cut_at_marker l m = (let i = Index l m in if i \<noteq> - 1 then slice l 0 i else Some l)"

fun stripComments_loop :: "string list \<Rightarrow> string \<Rightarrow> string option" where
  "stripComments_loop [] l = Some l"
| "stripComments_loop (m # ms) l =
     (case cut_at_marker l m of None \<Rightarrow> None | Some l' \<Rightarrow> stripComments_loop ms l')"

definition stripComments :: "string \<Rightarrow> string option" where
  "stripComments l =
     stripComments_loop
       [[CHR 0x20, CHR '';''], [CHR 0x09, CHR '';''], [CHR 0x20, CHR ''#''], [CHR 0x09, CHR ''#'']] l"

text \<open>The inner loop of \<open>firstIndex\<close>: whether the byte equals \<open>delim[j]\<close> for some \<open>j\<close>.\<close>

fun delim_loop :: "char \<Rightarrow> char list \<Rightarrow> bool" where
  "delim_loop b [] = False"
| "delim_loop b (d # ds) = (if b = d then True else delim_loop b ds)"

function firstIndex_from :: "string \<Rightarrow> char list \<Rightarrow> nat \<Rightarrow> int option" where
  "firstIndex_from s delim i =
     (if i < length s
      then (case byte_at s (int i) of
              None \<Rightarrow> None
            | Some b \<Rightarrow> if delim_loop b delim then Some (int i)
                        else firstIndex_from s delim (Suc i))
      else Some (- 1))"
  by pat_completeness auto
termination
  by (relation "measure (\<lambda>(s, delim, i). length s - i)") auto

declare firstIndex_from.simps [simp del]

definition firstIndex :: "string \<Rightarrow> char list \<Rightarrow> int option" where
  "firstIndex s delim = firstIndex_from s delim 0"

section \<open>The parser (Read and the loading entry points)\<close>

text \<open>
  A reader is the bytes it still has to deliver and the error its source reports once
  they are used up: \<open>EOF\<close> for a buffer or a file that ends, another error for a source
  that fails.
\<close>

record Reader =
  unread :: string
  failure :: os_Error

text \<open>
  \<open>bufio.Reader.ReadString\<close>: the bytes up to and including the first \<open>delim\<close>; when the
  source ends or fails before a \<open>delim\<close>, the bytes read so far together with the error.
\<close>

definition ReadString :: "char \<Rightarrow> Reader \<Rightarrow> string \<times> os_Error option \<times> Reader" where
  "ReadString delim r =
     (if delim \<in> set (unread r)
      then (takeWhile (\<lambda>b. b \<noteq> delim) (unread r) @ [delim], None,
            r\<lparr>unread := drop 1 (dropWhile (\<lambda>b. b \<noteq> delim) (unread r))\<rparr>)
      else (unread r, Some (failure r), r\<lparr>unread := []\<rparr>))"

text \<open>
  The state of the loop of \<open>Read\<close> is the configuration, the current section and the
  current option. The last alternative of its switch, on a line \<open>l\<close> that is neither blank,
  nor a comment, nor a section header, in a section that is not empty:
\<close>

type_synonym parser_state = "ConfigFile \<times> string \<times> string"

definition option_or_continuation ::
  "string \<Rightarrow> parser_state \<Rightarrow> (os_Error + parser_state) option" where
  "option_or_continuation l st =
     (case st of (c, section, option) \<Rightarrow>
      do {
        i \<leftarrow> firstIndex l [CHR ''='', CHR '':''];
        if i > 0 then do {
          name \<leftarrow> slice l 0 i;
          rest \<leftarrow> slice l (i + 1) (int (length l));
          stripped \<leftarrow> stripComments rest;
          r \<leftarrow> AddOption section (TrimSpace name) (TrimSpace stripped) c;
          Some (Inr (snd r, section, TrimSpace name))
        }
        else if section \<noteq> '''' \<and> option \<noteq> '''' then do {
          stripped \<leftarrow> stripComments l;
          r \<leftarrow> AddOption section option
                 ((case GetRawString section option c of Inr prev \<Rightarrow> prev | Inl _ \<Rightarrow> '''')
                    @ [CHR 0x0A] @ TrimSpace stripped) c;
          Some (Inr (snd r, section, option))
        }
        else Some (Inl (ReadErr \<lparr>RReason = CouldNotParse, Line = l\<rparr>))
      })"

text \<open>
  The body of the loop on one line \<open>l\<close>, already trimmed: \<open>Inr\<close> the next state, \<open>Inl\<close> the
  error returned, \<open>None\<close> a panic.
\<close>

definition process_line :: "string \<Rightarrow> parser_state \<Rightarrow> (os_Error + parser_state) option" where
  "process_line l st =
     (case st of (c, section, option) \<Rightarrow>
      if length l = 0 then Some (Inr st)
      else do {
        b0 \<leftarrow> byte_at l 0;
        if b0 = CHR ''#'' then Some (Inr st)
        else if b0 = CHR '';'' then Some (Inr st)
        else do {
          is_rem \<leftarrow> (if length l \<ge> 3
                     then do { p \<leftarrow> slice l 0 3; Some (ToLower p = ''rem'') }
                     else Some False);
          if is_rem then Some (Inr st)
          else do {
            is_header \<leftarrow> (if b0 = CHR ''[''
                           then do { e \<leftarrow> byte_at l (int (length l) - 1); Some (e = CHR '']'') }
                           else Some False);
            if is_header then do {
              name \<leftarrow> slice l 1 (int (length l) - 1);
              Some (Inr (snd (AddSection (TrimSpace name) c), TrimSpace name, ''''))
            }
            else if section = '''' then Some (Inl (ReadErr \<lparr>RReason = BlankSection, Line = l\<rparr>))
            else option_or_continuation l st
          }
        }
      })"

function Read_loop :: "Reader \<Rightarrow> parser_state \<Rightarrow> (os_Error option \<times> ConfigFile) option" where
  "Read_loop buf st =
     (case ReadString (CHR 0x0A) buf of
        (l, Some err, buf') \<Rightarrow>
          if err = EOF then Some (None, fst st) else Some (Some err, fst st)
      | (l, None, buf') \<Rightarrow>
          (case process_line (TrimSpace l) st of
             None \<Rightarrow> None
           | Some (Inl e) \<Rightarrow> Some (Some e, fst st)
           | Some (Inr st') \<Rightarrow> Read_loop buf' st'))"
  by pat_completeness auto
termination
proof (relation "measure (\<lambda>(buf, st). length (unread buf))", goal_cases)
  case 1
  show ?case by simp
next
  case (2 buf st)
  have "length (dropWhile (\<lambda>b. b \<noteq> CHR 0x0A) (unread buf)) \<le> length (unread buf)"
    by (rule length_dropWhile_le)
  moreover from 2 have "0 < length (unread buf)"
    by (auto simp: ReadString_def split: if_splits)
  ultimately have "length (dropWhile (\<lambda>b. b \<noteq> CHR 0x0A) (unread buf)) - Suc 0
      < length (unread buf)"
    by arith
  with 2 show ?case
    by (auto simp: ReadString_def split: if_splits)
qed

declare Read_loop.simps [simp del]

text \<open>
  \<open>Read\<close> changes the configuration in place, so the model returns the configuration as
  it is when \<open>Read\<close> returns, next to the error (\<open>None\<close> for \<open>nil\<close>).
\<close>

definition Read :: "Reader \<Rightarrow> ConfigFile \<Rightarrow> (os_Error option \<times> ConfigFile) option" where
  "Read reader c = Read_loop reader (c, ''default'', '''')"

definition ReadConfigBytes :: "string \<Rightarrow> (os_Error + ConfigFile) option" where
  "ReadConfigBytes conf =
     (case Read \<lparr>unread = conf, failure = EOF\<rparr> NewConfigFile of
        None \<Rightarrow> None
      | Some (Some err, c) \<Rightarrow> Some (Inl err)
      | Some (None, c) \<Rightarrow> Some (Inr c))"

text \<open>
  \<open>ReadConfigFile\<close> opens and closes a file; what the file system answers to the two calls
  is given: \<open>opened\<close> is the error of \<open>os.Open\<close> or the file as a reader, \<open>closed\<close> the result
  of \<open>file.Close\<close>.
\<close>

definition ReadConfigFile ::
  "os_Error + Reader \<Rightarrow> os_Error option \<Rightarrow> (os_Error + ConfigFile) option" where
  "ReadConfigFile opened closed =
     (case opened of
        Inl err \<Rightarrow> Some (Inl err)
      | Inr file \<Rightarrow>
          (case Read file NewConfigFile of
             None \<Rightarrow> None
           | Some (Some err, c) \<Rightarrow> Some (Inl err)
           | Some (None, c) \<Rightarrow>
               (case closed of Some err \<Rightarrow> Some (Inl err) | None \<Rightarrow> Some (Inr c))))"

section \<open>Notions used to state the properties\<close>

text \<open>
  A comment marker starts at index \<open>i\<close> of \<open>l\<close>: a space or a tab, followed at once by
  \<open>;\<close> or \<open>#\<close>.
\<close>

definition comment_marker :: "char \<Rightarrow> char \<Rightarrow> bool" where
  "comment_marker x y = ((x = CHR 0x20 \<or> x = CHR 0x09) \<and> (y = CHR '';'' \<or> y = CHR ''#''))"

definition marker_at :: "string \<Rightarrow> nat \<Rightarrow> bool" where
  "marker_at l i = (i + 1 < length l \<and> comment_marker (l ! i) (l ! (i + 1)))"

text \<open>The text before the first pair of neighbours related by \<open>R\<close>, the whole text without one.\<close>

fun cut_where :: "(char \<Rightarrow> char \<Rightarrow> bool) \<Rightarrow> string \<Rightarrow> string" where
  "cut_where R (x # y # r) = (if R x y then [] else x # cut_where R (y # r))"
| "cut_where R l = l"

text \<open>A separator, \<open>=\<close> or \<open>:\<close>, stands at index \<open>k\<close> of \<open>l\<close>.\<close>

definition separator_at :: "string \<Rightarrow> nat \<Rightarrow> bool" where
  "separator_at l k = (k < length l \<and> (l ! k = CHR ''='' \<or> l ! k = CHR '':''))"

text \<open>
  The classes of trimmed lines that the switch of \<open>Read\<close> tells apart before it looks for
  a separator: blank lines and full-line comments, and section headers.
\<close>

definition blank_or_comment :: "string \<Rightarrow> bool" where
  "blank_or_comment l =
     (l = [] \<or> hd l = CHR ''#'' \<or> hd l = CHR '';''
      \<or> (3 \<le> length l \<and> ToLower (take 3 l) = ''rem''))"

definition section_header :: "string \<Rightarrow> bool" where
  "section_header l = (l \<noteq> [] \<and> hd l = CHR ''['' \<and> last l = CHR '']'')"

text \<open>
  The lines \<open>raws\<close>, given without their line feeds, are all accepted by the body of the
  loop of \<open>Read\<close>, one after the other from the state \<open>st\<close>: the result is the state after
  the last of them, and \<open>None\<close> when one of them fails.
\<close>

fun good_lines :: "string list \<Rightarrow> parser_state \<Rightarrow> parser_state option" where
  "good_lines [] st = Some st"
| "good_lines (raw # raws) st =
     (case process_line (TrimSpace (raw @ [CHR 0x0A])) st of
        Some (Inr st') \<Rightarrow> good_lines raws st'
      | _ \<Rightarrow> None)"

text \<open>The input consists of whole lines: it is empty or ends with a line feed.\<close>

definition complete_lines :: "string \<Rightarrow> bool" where
  "complete_lines pre = (pre = [] \<or> last pre = CHR 0x0A)"

text \<open>The reserved section exists.\<close>

definition has_default :: "ConfigFile \<Rightarrow> bool" where
  "has_default c = (data c DefaultSection \<noteq> None)"

text \<open>
  The current option of the loop of \<open>Read\<close>, when there is one, is an option stored in
  the current section.
\<close>

definition option_tracked :: "parser_state \<Rightarrow> bool" where
  "option_tracked st =
     (case st of (c, section, option) \<Rightarrow>
        option = '''' \<or>
        (\<exists>opts v. data c (ToLower section) = Some opts \<and> opts (ToLower option) = Some v))"

text \<open>
  The operations a caller can apply to a configuration it holds, and their effect on the
  configuration; \<open>None\<close> is a panic. \<open>Read\<close> leaves the configuration as changed by the lines
  it has processed, also when it returns an error.
\<close>

datatype operation =
    OpAddSection string
  | OpRemoveSection string
  | OpAddOption string string string
  | OpRemoveOption string string
  | OpRead Reader

fun apply_operation :: "operation \<Rightarrow> ConfigFile \<Rightarrow> ConfigFile option" where
  "apply_operation (OpAddSection s) c = Some (snd (AddSection s c))"
| "apply_operation (OpRemoveSection s) c = Some (snd (RemoveSection s c))"
| "apply_operation (OpAddOption s opt v) c = map_option snd (AddOption s opt v c)"
| "apply_operation (OpRemoveOption s opt) c = Some (snd (RemoveOption s opt c))"
| "apply_operation (OpRead r) c = map_option snd (Read r c)"

fun apply_operations :: "operation list \<Rightarrow> ConfigFile \<Rightarrow> ConfigFile option" where
  "apply_operations [] c = Some c"
| "apply_operations (x # xs) c =
     (case apply_operation x c of None \<Rightarrow> None | Some c' \<Rightarrow> apply_operations xs c')"

section \<open>Lower-casing\<close>

lemma toLower_byte_idem: "toLower_byte (toLower_byte b) = toLower_byte b"
  by (simp add: toLower_byte_def)

lemma ToLower_idem: "ToLower (ToLower s) = ToLower s"
  by (simp add: ToLower_def toLower_byte_idem)

lemma ToLower_default: "ToLower DefaultSection = DefaultSection"
  by (simp add: ToLower_def toLower_byte_def DefaultSection_def)

section \<open>The operations on the configuration\<close>

lemma AddSection_data:
  "data (snd (AddSection section c)) =
     (case data c (ToLower section) of
        None \<Rightarrow> (data c)(ToLower section \<mapsto> Map.empty)
      | Some opts \<Rightarrow> data c)"
  by (simp add: AddSection_def Let_def split: option.splits)

lemma AddOption_eq:
  "AddOption section option val c =
     Some ((case data c (ToLower section) of
              None \<Rightarrow> True
            | Some opts \<Rightarrow> opts (ToLower option) = None),
           c\<lparr>data := (data c)(ToLower section \<mapsto>
                 (case data c (ToLower section) of None \<Rightarrow> Map.empty | Some opts \<Rightarrow> opts)
                   (ToLower option \<mapsto> val))\<rparr>)"
  by (auto simp: AddOption_def AddSection_def Let_def split: option.splits)

text \<open>
  C8. \<open>AddOption\<close> never panics. The configuration it leaves has, under the lower-cased
  section name, the options the section had before (none when the section was absent, so
  that the section is created), with the value stored under the lower-cased option name in
  place of any earlier value; every other section is as before. The result is true exactly
  when the lower-cased option was not a key of that section before the call, which
  includes the case of an absent section, and false when a value was overwritten.
\<close>

theorem AddOption_creates_stores_reports:
  "AddOption section option val c =
     Some ((case data c (ToLower section) of
              None \<Rightarrow> True
            | Some opts \<Rightarrow> opts (ToLower option) = None),
           c\<lparr>data := (data c)(ToLower section \<mapsto>
                 (case data c (ToLower section) of None \<Rightarrow> Map.empty | Some opts \<Rightarrow> opts)
                   (ToLower option \<mapsto> val))\<rparr>)"
  by (auto simp: AddOption_def AddSection_def Let_def split: option.splits)

text \<open>
  C9. \<open>RemoveSection\<close> returns false and leaves the configuration as it is when the
  lower-cased name is the reserved default section or is not a section; otherwise it
  returns true and the configuration differs from the old one only in that the
  lower-cased name is no longer a section (its options go with it).
\<close>

theorem RemoveSection_default_absent_or_deleted:
  "RemoveSection section c =
     (if ToLower section = DefaultSection \<or> data c (ToLower section) = None
      then (False, c)
      else (True, c\<lparr>data := (data c)(ToLower section := None)\<rparr>))"
  by (auto simp: RemoveSection_def Let_def)

section \<open>Comment stripping\<close>

lemma Index_range: "Index l m = - 1 \<or> (0 \<le> Index l m \<and> Index l m \<le> int (length l))"
  by (induction l) (auto simp: Let_def)

lemma cut_at_marker_two: "cut_at_marker l [a, b] = Some (cut_where (\<lambda>x y. x = a \<and> y = b) l)"
proof (induction l rule: induct_list012)
  case 1
  show ?case by (simp add: cut_at_marker_def)
next
  case (2 x)
  show ?case by (simp add: cut_at_marker_def)
next
  case (3 x y r)
  show ?case
  proof (cases "x = a \<and> y = b")
    case True
    then show ?thesis by (simp add: cut_at_marker_def slice_def)
  next
    case False
    with Index_range[of "y # r" "[a, b]"] 3(2) show ?thesis
      by (auto simp: cut_at_marker_def Let_def slice_def nat_add_distrib split: if_splits)
  qed
qed

text \<open>
  Cutting at \<open>R1\<close> and then at \<open>R2\<close> cuts at the first pair related by either, provided no
  pair related by \<open>R2\<close> ends where a pair related by \<open>R1\<close> starts.
\<close>

lemma cut_where_compose:
  assumes disj: "\<And>x y z. R1 y z \<Longrightarrow> \<not> R2 x y"
  shows "cut_where R2 (cut_where R1 l) = cut_where (\<lambda>x y. R1 x y \<or> R2 x y) l"
proof (induction l rule: induct_list012)
  case (3 x y r)
  show ?case
  proof (cases "R1 x y")
    case True
    then show ?thesis by simp
  next
    case nxy: False
    show ?thesis
    proof (cases r)
      case Nil
      with nxy show ?thesis by simp
    next
      case (Cons z r')
      show ?thesis
      proof (cases "R1 y z")
        case True
        with disj have "\<not> R2 x y" by blast
        with nxy True Cons show ?thesis by simp
      next
        case False
        with 3 nxy Cons show ?thesis by simp
      qed
    qed
  qed
qed simp_all

lemma stripComments_cut: "stripComments l = Some (cut_where comment_marker l)"
proof -
  let ?R1 = "\<lambda>x y. x = CHR 0x20 \<and> y = CHR '';''"
  let ?R2 = "\<lambda>x y. x = CHR 0x09 \<and> y = CHR '';''"
  let ?R3 = "\<lambda>x y. x = CHR 0x20 \<and> y = CHR ''#''"
  let ?R4 = "\<lambda>x y. x = CHR 0x09 \<and> y = CHR ''#''"
  have "stripComments l = Some (cut_where ?R4 (cut_where ?R3 (cut_where ?R2 (cut_where ?R1 l))))"
    by (simp add: stripComments_def cut_at_marker_two)
  also have "cut_where ?R2 (cut_where ?R1 l) = cut_where (\<lambda>x y. ?R1 x y \<or> ?R2 x y) l"
    by (rule cut_where_compose) auto
  also have "cut_where ?R3 (cut_where (\<lambda>x y. ?R1 x y \<or> ?R2 x y) l)
      = cut_where (\<lambda>x y. (?R1 x y \<or> ?R2 x y) \<or> ?R3 x y) l"
    by (rule cut_where_compose) auto
  also have "cut_where ?R4 (cut_where (\<lambda>x y. (?R1 x y \<or> ?R2 x y) \<or> ?R3 x y) l)
      = cut_where (\<lambda>x y. ((?R1 x y \<or> ?R2 x y) \<or> ?R3 x y) \<or> ?R4 x y) l"
    by (rule cut_where_compose) auto
  also have "(\<lambda>x y. ((?R1 x y \<or> ?R2 x y) \<or> ?R3 x y) \<or> ?R4 x y) = comment_marker"
    by (auto simp: comment_marker_def fun_eq_iff)
  finally show ?thesis .
qed

lemma cut_where_none:
  "(\<And>i. i + 1 < length l \<Longrightarrow> \<not> R (l ! i) (l ! (i + 1))) \<Longrightarrow> cut_where R l = l"
proof (induction l rule: induct_list012)
  case (3 x y r)
  from 3(3)[of 0] have "\<not> R x y" by simp
  moreover have "cut_where R (y # r) = y # r"
  proof (rule 3(2))
    fix i assume "i + 1 < length (y # r)"
    with 3(3)[of "Suc i"] show "\<not> R ((y # r) ! i) ((y # r) ! (i + 1))" by simp
  qed
  ultimately show ?case by simp
qed simp_all

lemma cut_where_first:
  "i + 1 < length l \<Longrightarrow> R (l ! i) (l ! (i + 1)) \<Longrightarrow>
   (\<And>j. j < i \<Longrightarrow> \<not> R (l ! j) (l ! (j + 1))) \<Longrightarrow> cut_where R l = take i l"
proof (induction l arbitrary: i rule: induct_list012)
  case (3 x y r)
  show ?case
  proof (cases i)
    case 0
    with 3(4) show ?thesis by simp
  next
    case (Suc k)
    from 3(5)[of 0] Suc have "\<not> R x y" by simp
    moreover have "cut_where R (y # r) = take k (y # r)"
    proof (rule 3(2))
      from 3(3) Suc show "k + 1 < length (y # r)" by simp
      from 3(4) Suc show "R ((y # r) ! k) ((y # r) ! (k + 1))" by simp
      fix j assume "j < k"
      with 3(5)[of "Suc j"] Suc show "\<not> R ((y # r) ! j) ((y # r) ! (j + 1))" by simp
    qed
    ultimately show ?thesis using Suc by simp
  qed
qed simp_all

text \<open>
  C3. \<open>stripComments\<close> never panics, and its result is the line cut at the least index at
  which one of the four markers (space or tab, followed at once by \<open>;\<close> or \<open>#\<close>) starts:
  the prefix before that index when there is such an index, the whole line otherwise. So
  a \<open>;\<close> or \<open>#\<close> that no space or tab precedes cuts nothing: it stays, unless an earlier
  marker has cut it off.
\<close>

theorem stripComments_earliest_marker:
  "stripComments l =
     Some (if \<exists>i. marker_at l i then take (LEAST i. marker_at l i) l else l)"
proof (cases "\<exists>i. marker_at l i")
  case True
  define k where "k = (LEAST i. marker_at l i)"
  from True have mk: "marker_at l k"
    unfolding k_def by (metis LeastI)
  have least: "\<not> marker_at l j" if "j < k" for j
    using that unfolding k_def by (rule not_less_Least)
  have "cut_where comment_marker l = take k l"
  proof (rule cut_where_first)
    from mk show "k + 1 < length l" by (simp add: marker_at_def)
    from mk show "comment_marker (l ! k) (l ! (k + 1))" by (simp add: marker_at_def)
    fix j assume "j < k"
    with least[of j] mk show "\<not> comment_marker (l ! j) (l ! (j + 1))"
      by (auto simp: marker_at_def)
  qed
  with True show ?thesis by (simp add: stripComments_cut k_def)
next
  case False
  then have "cut_where comment_marker l = l"
    by (intro cut_where_none) (auto simp: marker_at_def)
  with False show ?thesis by (simp add: stripComments_cut)
qed

section \<open>Indexing, slicing and firstIndex stay in bounds\<close>

lemma byte_at_0: "l \<noteq> [] \<Longrightarrow> byte_at l 0 = Some (hd l)"
  by (cases l) (simp_all add: byte_at_def)

lemma byte_at_last: "l \<noteq> [] \<Longrightarrow> byte_at l (int (length l) - 1) = Some (last l)"
  by (cases l rule: rev_cases) (simp_all add: byte_at_def nth_append)

lemma slice_take: "n \<le> length l \<Longrightarrow> slice l 0 (int n) = Some (take n l)"
  by (simp add: slice_def)

lemma slice_drop: "n \<le> length l \<Longrightarrow> slice l (int n) (int (length l)) = Some (drop n l)"
  by (simp add: slice_def)

lemma slice_3: "3 \<le> length l \<Longrightarrow> slice l 0 3 = Some (take 3 l)"
  using slice_take[of 3 l] by simp

lemma header_length: "section_header l \<Longrightarrow> 2 \<le> length l"
proof -
  assume h: "section_header l"
  then obtain x r where l: "l = x # r" and x: "x = CHR ''[''"
    by (cases l) (auto simp: section_header_def)
  with h have "r \<noteq> []" by (auto simp: section_header_def)
  with l show ?thesis by (cases r) auto
qed

lemma slice_inner:
  "2 \<le> length l \<Longrightarrow> slice l 1 (int (length l) - 1) = Some (butlast (tl l))"
proof -
  assume len: "2 \<le> length l"
  then have "nat (int (length l) - 1) - nat 1 = length l - 2" by simp
  moreover have "take (length l - 2) (drop 1 l) = butlast (tl l)"
    by (simp add: butlast_conv_take drop_Suc numeral_2_eq_2)
  ultimately show ?thesis using len by (simp add: slice_def)
qed

lemma delim_loop_mem: "delim_loop b delim = (b \<in> set delim)"
  by (induction delim) auto

lemma firstIndex_from_none:
  "(\<And>k. i \<le> k \<Longrightarrow> k < length s \<Longrightarrow> s ! k \<notin> set delim) \<Longrightarrow>
   firstIndex_from s delim i = Some (- 1)"
proof (induction s delim i rule: firstIndex_from.induct)
  case (1 s delim i)
  show ?case
  proof (cases "i < length s")
    case True
    with 1(2)[of i] have "\<not> delim_loop (s ! i) delim" by (simp add: delim_loop_mem)
    moreover from True have "byte_at s (int i) = Some (s ! i)" by (simp add: byte_at_def)
    moreover have "firstIndex_from s delim (Suc i) = Some (- 1)"
      using True calculation 1(2) by (intro 1(1)) auto
    ultimately show ?thesis using True by (subst firstIndex_from.simps) simp
  next
    case False
    then show ?thesis by (subst firstIndex_from.simps) simp
  qed
qed

lemma firstIndex_from_first:
  "i \<le> k \<Longrightarrow> k < length s \<Longrightarrow> s ! k \<in> set delim \<Longrightarrow>
   (\<And>j. i \<le> j \<Longrightarrow> j < k \<Longrightarrow> s ! j \<notin> set delim) \<Longrightarrow>
   firstIndex_from s delim i = Some (int k)"
proof (induction s delim i rule: firstIndex_from.induct)
  case (1 s delim i)
  from 1(2,3) have lt: "i < length s" by simp
  then have at: "byte_at s (int i) = Some (s ! i)" by (simp add: byte_at_def)
  show ?case
  proof (cases "i = k")
    case True
    with 1(4) lt at show ?thesis
      by (subst firstIndex_from.simps) (simp add: delim_loop_mem)
  next
    case False
    with 1(2) have ik: "i < k" by simp
    with 1(5)[of i] have nd: "\<not> delim_loop (s ! i) delim" by (simp add: delim_loop_mem)
    have "firstIndex_from s delim (Suc i) = Some (int k)"
      using lt at nd ik 1(3,4,5) by (intro 1(1)) auto
    with lt at nd show ?thesis by (subst firstIndex_from.simps) simp
  qed
qed

lemma firstIndex_no_separator:
  "(\<And>k. \<not> separator_at l k) \<Longrightarrow> firstIndex l [CHR ''='', CHR '':''] = Some (- 1)"
  unfolding firstIndex_def
  by (rule firstIndex_from_none) (auto simp: separator_at_def)

lemma firstIndex_first_separator:
  "separator_at l k \<Longrightarrow> (\<And>j. j < k \<Longrightarrow> \<not> separator_at l j) \<Longrightarrow>
   firstIndex l [CHR ''='', CHR '':''] = Some (int k)"
  unfolding firstIndex_def
  by (rule firstIndex_from_first) (auto simp: separator_at_def)

lemma firstIndex_cases:
  obtains "firstIndex l [CHR ''='', CHR '':''] = Some (- 1)" "\<And>k. \<not> separator_at l k"
  | k where "firstIndex l [CHR ''='', CHR '':''] = Some (int k)" "separator_at l k"
      "\<And>j. j < k \<Longrightarrow> \<not> separator_at l j"
proof (cases "\<exists>k. separator_at l k")
  case True
  define k where "k = (LEAST k. separator_at l k)"
  from True have "separator_at l k" unfolding k_def by (metis LeastI)
  moreover have "\<not> separator_at l j" if "j < k" for j
    using that unfolding k_def by (rule not_less_Least)
  ultimately show ?thesis using that(2) firstIndex_first_separator by blast
next
  case False
  then show ?thesis using that(1) firstIndex_no_separator by blast
qed

section \<open>The body of the loop of Read, case by case\<close>

lemma process_line_skip: "blank_or_comment l \<Longrightarrow> process_line l st = Some (Inr st)"
  by (cases st) (auto simp: process_line_def blank_or_comment_def byte_at_0 slice_3)

lemma process_line_header:
  "\<not> blank_or_comment l \<Longrightarrow> section_header l \<Longrightarrow>
   process_line l (c, section, option) =
     Some (Inr (snd (AddSection (TrimSpace (butlast (tl l))) c), TrimSpace (butlast (tl l)), ''''))"
  using header_length[of l]
  by (simp add: process_line_def blank_or_comment_def section_header_def byte_at_0 byte_at_last
      slice_3 slice_inner)

lemma process_line_blank_section:
  "\<not> blank_or_comment l \<Longrightarrow> \<not> section_header l \<Longrightarrow>
   process_line l (c, '''', option) = Some (Inl (ReadErr \<lparr>RReason = BlankSection, Line = l\<rparr>))"
  by (simp add: process_line_def blank_or_comment_def section_header_def byte_at_0 byte_at_last
      slice_3)

lemma process_line_other:
  "\<not> blank_or_comment l \<Longrightarrow> \<not> section_header l \<Longrightarrow> section \<noteq> '''' \<Longrightarrow>
   process_line l (c, section, option) = option_or_continuation l (c, section, option)"
  by (simp add: process_line_def blank_or_comment_def section_header_def byte_at_0 byte_at_last
      slice_3)

lemma option_line:
  assumes sep: "separator_at l k" and first: "\<And>j. j < k \<Longrightarrow> \<not> separator_at l j"
    and pos: "0 < k"
  shows "option_or_continuation l (c, section, option) =
     do {
       stripped \<leftarrow> stripComments (drop (Suc k) l);
       r \<leftarrow> AddOption section (TrimSpace (take k l)) (TrimSpace stripped) c;
       Some (Inr (snd r, section, TrimSpace (take k l)))
     }"
proof -
  from sep have k: "k < length l" by (simp add: separator_at_def)
  have fi: "firstIndex l [CHR ''='', CHR '':''] = Some (int k)"
    using sep first by (rule firstIndex_first_separator)
  from k have s1: "slice l 0 (int k) = Some (take k l)" by (simp add: slice_take)
  from k have s2: "slice l (int k + 1) (int (length l)) = Some (drop (Suc k) l)"
    using slice_drop[of "Suc k" l] by (simp add: add.commute)
  from pos show ?thesis
    by (simp add: option_or_continuation_def fi s1 s2)
qed

lemma continuation_line:
  assumes "firstIndex l [CHR ''='', CHR '':''] = Some i" and "\<not> 0 < i"
  shows "option_or_continuation l (c, section, option) =
     (if section \<noteq> '''' \<and> option \<noteq> '''' then
        do {
          stripped \<leftarrow> stripComments l;
          r \<leftarrow> AddOption section option
                 ((case GetRawString section option c of Inr prev \<Rightarrow> prev | Inl _ \<Rightarrow> '''')
                    @ [CHR 0x0A] @ TrimSpace stripped) c;
          Some (Inr (snd r, section, option))
        }
      else Some (Inl (ReadErr \<lparr>RReason = CouldNotParse, Line = l\<rparr>)))"
  using assms by (simp add: option_or_continuation_def)

lemma GetRawString_stored:
  "data c (ToLower section) = Some opts \<Longrightarrow> opts (ToLower option) = Some prev \<Longrightarrow>
   GetRawString section option c = Inr prev"
  by (simp add: GetRawString_def)



text \<open>
  C5. Let \<open>l\<close> be a trimmed line that the switch of \<open>Read\<close> passes on to the search for a
  separator (not blank, not a full-line comment, not a section header, the current section
  not empty, so that a current section is set), and let \<open>l\<close> have neither \<open>=\<close> nor \<open>:\<close>.
  When a current option is set, with \<open>prev\<close> the value stored for it in the current
  section, the value stored for it becomes \<open>prev\<close>, a line feed and the line with comments
  stripped and then trimmed; nothing else changes. When no current option is set, the
  line fails with the could-not-parse error that carries \<open>l\<close>. (By \<open>process_line_tracked\<close>
  below, a current option of the loop is always stored in the current section.)
\<close>

theorem continuation_or_parse_error:
  assumes "\<not> blank_or_comment l" and "\<not> section_header l" and "section \<noteq> ''''"
    and "\<And>k. \<not> separator_at l k"
  shows "(option \<noteq> '''' \<longrightarrow> data c (ToLower section) = Some opts \<longrightarrow>
          opts (ToLower option) = Some prev \<longrightarrow>
          (\<exists>stripped. stripComments l = Some stripped \<and>
             process_line l (c, section, option) =
               Some (Inr (c\<lparr>data := (data c)(ToLower section \<mapsto>
                              opts(ToLower option \<mapsto> prev @ [CHR 0x0A] @ TrimSpace stripped))\<rparr>,
                          section, option))))
       \<and> (option = '''' \<longrightarrow>
            process_line l (c, section, option) =
              Some (Inl (ReadErr \<lparr>RReason = CouldNotParse, Line = l\<rparr>)))"
proof -
  have fi: "firstIndex l [CHR ''='', CHR '':''] = Some (- 1)"
    using assms(4) by (rule firstIndex_no_separator)
  note pl = process_line_other[OF assms(1,2,3)]
  have "\<not> 0 < (- 1 :: int)" by simp
  note cl = continuation_line[OF fi this]
  show ?thesis
    using assms(3) by (simp add: pl cl stripComments_cut AddOption_eq GetRawString_def)
qed

theorem continuation_or_parse_error_witness:
  "process_line ''x ;c'' (\<lparr>data = [''s'' \<mapsto> [''o'' \<mapsto> ''v'']]\<rparr>, ''s'', ''o'') =
     Some (Inr (\<lparr>data = [''s'' \<mapsto> [''o'' \<mapsto> ''v'' @ [CHR 0x0A] @ ''x'']]\<rparr>, ''s'', ''o'')) \<and>
   process_line ''x ;c'' (\<lparr>data = [''s'' \<mapsto> [''o'' \<mapsto> ''v'']]\<rparr>, ''s'', '''') =
     Some (Inl (ReadErr \<lparr>RReason = CouldNotParse, Line = ''x ;c''\<rparr>))"
proof -
  let ?l = "''x ;c''"
  let ?c = "\<lparr>data = [''s'' \<mapsto> [''o'' \<mapsto> ''v'']]\<rparr>"
  have h1: "\<not> blank_or_comment ?l"
    by (simp add: blank_or_comment_def ToLower_def toLower_byte_def)
  have h2: "\<not> section_header ?l" by (simp add: section_header_def)
  have h3: "''s'' \<noteq> ''''" by simp
  have h4: "\<not> separator_at ?l k" for k
  proof
    assume "separator_at ?l k"
    then have "CHR ''='' \<in> set ?l \<or> CHR '':'' \<in> set ?l"
      unfolding separator_at_def by (metis nth_mem)
    then show False by simp
  qed
  have sc: "stripComments ?l = Some ''x''"
    by (simp add: stripComments_def cut_at_marker_def slice_def)
  have lo: "ToLower ''s'' = ''s''" "ToLower ''o'' = ''o''"
    by (simp_all add: ToLower_def toLower_byte_def)
  from continuation_or_parse_error[OF h1 h2 h3 h4, of "''o''" ?c "[''o'' \<mapsto> ''v'']" "''v''"]
    continuation_or_parse_error[OF h1 h2 h3 h4, of "''''" ?c]
  show ?thesis
    by (simp add: sc lo TrimSpace_def isSpace_def)
qed

lemma option_or_continuation_total: "\<exists>r. option_or_continuation l (c, section, option) = Some r"
proof (cases l rule: firstIndex_cases)
  case 1
  from continuation_line[OF 1(1), of c "section" "option"] show ?thesis
    by (simp add: stripComments_cut AddOption_eq)
next
  case (2 k)
  show ?thesis
  proof (cases "0 < k")
    case True
    from option_line[OF 2(2) 2(3) True, of c "section" "option"] show ?thesis
      by (simp add: stripComments_cut AddOption_eq)
  next
    case False
    with continuation_line[OF 2(1), of c "section" "option"] show ?thesis
      by (simp add: stripComments_cut AddOption_eq)
  qed
qed

lemma process_line_total: "\<exists>r. process_line l st = Some r"
proof -
  obtain c sec opt where st: "st = (c, sec, opt)" by (cases st)
  show ?thesis
  proof (cases "blank_or_comment l")
    case True
    then show ?thesis by (simp add: process_line_skip)
  next
    case nb: False
    show ?thesis
    proof (cases "section_header l")
      case True
      with nb show ?thesis by (simp add: st process_line_header)
    next
      case nh: False
      show ?thesis
      proof (cases "sec = ''''")
        case True
        with nb nh show ?thesis by (simp add: st process_line_blank_section)
      next
        case False
        with nb nh show ?thesis
          by (simp add: st process_line_other option_or_continuation_total)
      qed
    qed
  qed
qed

lemma takeWhile_line: "CHR 0x0A \<notin> set raw \<Longrightarrow>
    takeWhile (\<lambda>b. b \<noteq> CHR 0x0A) (raw @ CHR 0x0A # rest) = raw"
  by (induction raw) auto

lemma dropWhile_line: "CHR 0x0A \<notin> set raw \<Longrightarrow>
    dropWhile (\<lambda>b. b \<noteq> CHR 0x0A) (raw @ CHR 0x0A # rest) = CHR 0x0A # rest"
  by (induction raw) auto

lemma Read_loop_step:
  "CHR 0x0A \<notin> set raw \<Longrightarrow>
   Read_loop \<lparr>unread = raw @ CHR 0x0A # rest, failure = f\<rparr> st =
     (case process_line (TrimSpace (raw @ [CHR 0x0A])) st of
        None \<Rightarrow> None
      | Some (Inl e) \<Rightarrow> Some (Some e, fst st)
      | Some (Inr st') \<Rightarrow> Read_loop \<lparr>unread = rest, failure = f\<rparr> st')"
  by (subst Read_loop.simps) (simp add: ReadString_def takeWhile_line dropWhile_line)

lemma Read_loop_end:
  "CHR 0x0A \<notin> set t \<Longrightarrow>
   Read_loop \<lparr>unread = t, failure = f\<rparr> st = Some (if f = EOF then None else Some f, fst st)"
  by (subst Read_loop.simps) (simp add: ReadString_def)

lemma Read_loop_total: "\<exists>err c'. Read_loop buf st = Some (err, c')"
proof (induction buf st rule: Read_loop.induct)
  case (1 buf st)
  obtain l err buf' where rs: "ReadString (CHR 0x0A) buf = (l, err, buf')"
    by (cases "ReadString (CHR 0x0A) buf") auto
  show ?case
  proof (cases err)
    case (Some e)
    with rs show ?thesis by (subst Read_loop.simps) simp
  next
    case None
    obtain r where pl: "process_line (TrimSpace l) st = Some r"
      using process_line_total by blast
    show ?thesis
    proof (cases r)
      case (Inl e)
      with rs None pl show ?thesis by (subst Read_loop.simps) simp
    next
      case (Inr st')
      from 1[OF rs[symmetric] _ None pl Inr] rs None pl Inr show ?thesis
        by (subst Read_loop.simps) simp
    qed
  qed
qed

lemma complete_lines_split:
  assumes "complete_lines pre" and "pre \<noteq> []"
  obtains raw pre' where "pre = raw @ CHR 0x0A # pre'" "CHR 0x0A \<notin> set raw" "complete_lines pre'"
proof -
  from assms have "CHR 0x0A \<in> set pre"
    by (auto simp: complete_lines_def dest: last_in_set)
  then obtain raw pre' where sp: "pre = raw @ CHR 0x0A # pre'" "CHR 0x0A \<notin> set raw"
    by (auto dest: split_list_first)
  with assms(1) have "complete_lines pre'"
    by (auto simp: complete_lines_def split: if_splits)
  with sp that show ?thesis by blast
qed

lemma Read_loop_error_prefix:
  "complete_lines pre \<Longrightarrow>
   Read_loop \<lparr>unread = pre, failure = EOF\<rparr> st = Some (Some e, c') \<Longrightarrow>
   Read_loop \<lparr>unread = pre @ rest, failure = f\<rparr> st = Some (Some e, c')"
proof (induction pre arbitrary: st rule: length_induct)
  case (1 pre)
  show ?case
  proof (cases "pre = []")
    case True
    with 1(3) show ?thesis by (simp add: Read_loop_end)
  next
    case False
    with 1(2) obtain raw pre' where sp: "pre = raw @ CHR 0x0A # pre'"
      "CHR 0x0A \<notin> set raw" "complete_lines pre'"
      by (rule complete_lines_split)
    obtain r where pl: "process_line (TrimSpace (raw @ [CHR 0x0A])) st = Some r"
      using process_line_total by blast
    show ?thesis
    proof (cases r)
      case (Inl e')
      with 1(3) sp pl show ?thesis by (simp add: Read_loop_step)
    next
      case (Inr st')
      from sp have "length pre' < length pre" by simp
      moreover from 1(3) sp pl Inr
      have "Read_loop \<lparr>unread = pre', failure = EOF\<rparr> st' = Some (Some e, c')"
        by (simp add: Read_loop_step)
      ultimately have "Read_loop \<lparr>unread = pre' @ rest, failure = f\<rparr> st' = Some (Some e, c')"
        using 1(1) sp(3) by blast
      with sp pl Inr show ?thesis by (simp add: Read_loop_step)
    qed
  qed
qed

lemma Read_loop_unterminated:
  "complete_lines pre \<Longrightarrow> CHR 0x0A \<notin> set t \<Longrightarrow>
   Read_loop \<lparr>unread = pre @ t, failure = EOF\<rparr> st = Read_loop \<lparr>unread = pre, failure = EOF\<rparr> st"
proof (induction pre arbitrary: st rule: length_induct)
  case (1 pre)
  show ?case
  proof (cases "pre = []")
    case True
    with 1(3) show ?thesis by (simp add: Read_loop_end)
  next
    case False
    with 1(2) obtain raw pre' where sp: "pre = raw @ CHR 0x0A # pre'"
      "CHR 0x0A \<notin> set raw" "complete_lines pre'"
      by (rule complete_lines_split)
    obtain r where pl: "process_line (TrimSpace (raw @ [CHR 0x0A])) st = Some r"
      using process_line_total by blast
    show ?thesis
    proof (cases r)
      case (Inl e')
      with sp pl show ?thesis by (simp add: Read_loop_step)
    next
      case (Inr st')
      from sp have "length pre' < length pre" by simp
      then have "Read_loop \<lparr>unread = pre' @ t, failure = EOF\<rparr> st'
          = Read_loop \<lparr>unread = pre', failure = EOF\<rparr> st'"
        using 1(1,3) sp(3) by blast
      with sp pl Inr show ?thesis by (simp add: Read_loop_step)
    qed
  qed
qed

lemma process_line_errors:
  assumes "process_line l st = Some (Inl e)"
  shows "e = ReadErr \<lparr>RReason = BlankSection, Line = l\<rparr> \<or>
         e = ReadErr \<lparr>RReason = CouldNotParse, Line = l\<rparr>"
  using assms
  by (auto simp: process_line_def option_or_continuation_def split: prod.splits if_splits bind_splits)

section \<open>What the operations and the loop keep\<close>

lemma AddSection_keeps: "has_default c \<Longrightarrow> has_default (snd (AddSection s c))"
  by (simp add: has_default_def AddSection_def Let_def)

lemma AddOption_keeps:
  "has_default c \<Longrightarrow> AddOption s opt v c = Some r \<Longrightarrow> has_default (snd r)"
  by (auto simp: has_default_def AddOption_eq)

lemma RemoveOption_keeps: "has_default c \<Longrightarrow> has_default (snd (RemoveOption s opt c))"
  by (simp add: has_default_def RemoveOption_def Let_def split: option.splits)

lemma RemoveSection_keeps: "has_default c \<Longrightarrow> has_default (snd (RemoveSection s c))"
  by (auto simp: RemoveSection_def Let_def has_default_def)

lemma option_or_continuation_AddOption:
  assumes "option_or_continuation l (c, sec, opt) = Some (Inr (c', sec', opt'))"
  shows "sec' = sec \<and> (\<exists>v r. AddOption sec opt' v c = Some r \<and> c' = snd r)"
  using assms
  by (auto simp: option_or_continuation_def split: bind_splits if_splits) blast+

lemma process_line_keeps:
  assumes "process_line l (c, sec, opt) = Some (Inr (c', sec', opt'))" and "has_default c"
  shows "has_default c'"
proof (cases "blank_or_comment l")
  case True
  with assms show ?thesis by (simp add: process_line_skip)
next
  case nb: False
  show ?thesis
  proof (cases "section_header l")
    case True
    with nb assms show ?thesis by (auto simp: process_line_header AddSection_keeps)
  next
    case nh: False
    show ?thesis
    proof (cases "sec = ''''")
      case True
      with nb nh assms show ?thesis by (simp add: process_line_blank_section)
    next
      case False
      with nb nh assms(1)
      have "option_or_continuation l (c, sec, opt) = Some (Inr (c', sec', opt'))"
        by (simp add: process_line_other)
      from option_or_continuation_AddOption[OF this] assms(2) show ?thesis
        by (auto dest: AddOption_keeps)
    qed
  qed
qed

lemma process_line_tracked:
  assumes "process_line l st = Some (Inr st')" and "option_tracked st"
  shows "option_tracked st'"
proof -
  obtain c sec opt where st: "st = (c, sec, opt)" by (cases st)
  obtain c' sec' opt' where st': "st' = (c', sec', opt')" by (cases st')
  show ?thesis
  proof (cases "blank_or_comment l")
    case True
    with assms show ?thesis by (simp add: process_line_skip)
  next
    case nb: False
    show ?thesis
    proof (cases "section_header l")
      case True
      with nb assms show ?thesis by (auto simp: st process_line_header option_tracked_def)
    next
      case nh: False
      show ?thesis
      proof (cases "sec = ''''")
        case True
        with nb nh assms show ?thesis by (simp add: st process_line_blank_section)
      next
        case False
        with nb nh assms(1)
        have "option_or_continuation l (c, sec, opt) = Some (Inr (c', sec', opt'))"
          by (simp add: st st' process_line_other)
        from option_or_continuation_AddOption[OF this] show ?thesis
          by (auto simp: st' option_tracked_def AddOption_eq)
      qed
    qed
  qed
qed

lemma Read_loop_keeps:
  "Read_loop buf st = Some (err, c') \<Longrightarrow> has_default (fst st) \<Longrightarrow> has_default c'"
proof (induction buf st rule: Read_loop.induct)
  case (1 buf st)
  obtain l e buf' where rs: "ReadString (CHR 0x0A) buf = (l, e, buf')"
    by (cases "ReadString (CHR 0x0A) buf") auto
  show ?case
  proof (cases e)
    case (Some x)
    with rs 1(2,3) show ?thesis
      by (subst (asm) Read_loop.simps) (auto split: if_splits)
  next
    case None
    obtain r where pl: "process_line (TrimSpace l) st = Some r"
      using process_line_total by blast
    show ?thesis
    proof (cases r)
      case (Inl x)
      with rs None pl 1(2,3) show ?thesis
        by (subst (asm) Read_loop.simps) auto
    next
      case (Inr st')
      with rs None pl 1(2) have rec: "Read_loop buf' st' = Some (err, c')"
        by (subst (asm) Read_loop.simps) simp
      obtain c sec opt where st: "st = (c, sec, opt)" by (cases st)
      obtain c2 sec2 opt2 where st2: "st' = (c2, sec2, opt2)" by (cases st')
      from pl Inr 1(3) have "has_default (fst st')"
        using process_line_keeps[of "TrimSpace l" c sec opt c2 sec2 opt2] by (simp add: st st2)
      with 1(1)[OF rs[symmetric] _ None pl Inr rec] show ?thesis by simp
    qed
  qed
qed

lemma Read_keeps_default:
  "has_default c \<Longrightarrow> \<exists>err c'. Read reader c = Some (err, c') \<and> has_default c'"
proof -
  assume hd: "has_default c"
  obtain err c' where r: "Read reader c = Some (err, c')"
    unfolding Read_def using Read_loop_total by blast
  with hd have "has_default c'"
    unfolding Read_def using Read_loop_keeps[of reader _ err c'] by simp
  with r show ?thesis by blast
qed

lemma NewConfigFile_default: "has_default NewConfigFile"
  by (simp add: has_default_def NewConfigFile_def AddSection_def ToLower_default)

lemma apply_operation_default:
  "has_default c \<Longrightarrow> \<exists>c'. apply_operation x c = Some c' \<and> has_default c'"
proof (cases x)
  case (OpAddSection s)
  assume "has_default c"
  with OpAddSection show ?thesis by (simp add: AddSection_keeps)
next
  case (OpRemoveSection s)
  assume "has_default c"
  with OpRemoveSection show ?thesis by (simp add: RemoveSection_keeps)
next
  case (OpAddOption s opt v)
  assume "has_default c"
  with OpAddOption show ?thesis by (auto simp: AddOption_eq has_default_def)
next
  case (OpRemoveOption s opt)
  assume "has_default c"
  with OpRemoveOption show ?thesis by (simp add: RemoveOption_keeps)
next
  case (OpRead r)
  assume "has_default c"
  from Read_keeps_default[OF this, of r] OpRead show ?thesis by auto
qed

lemma apply_operations_default:
  "has_default c \<Longrightarrow> \<exists>c'. apply_operations ops c = Some c' \<and> has_default c'"
proof (induction ops arbitrary: c)
  case Nil
  then show ?case by simp
next
  case (Cons x xs)
  from apply_operation_default[OF Cons.prems, of x]
  obtain c1 where c1: "apply_operation x c = Some c1" "has_default c1" by blast
  from Cons.IH[OF c1(2)] c1(1) show ?case by simp
qed

section \<open>The parser on small inputs\<close>

lemmas eval_defs = process_line_def option_or_continuation_def byte_at_def slice_def ToLower_def
  toLower_byte_def firstIndex_def firstIndex_from.simps stripComments_def cut_at_marker_def
  AddOption_def AddSection_def TrimSpace_def isSpace_def GetRawString_def NewConfigFile_def
  DefaultSection_def

lemma example_option_line:
  "process_line ''a=1'' (NewConfigFile, ''default'', '''') =
     Some (Inr (\<lparr>data = [''default'' \<mapsto> [''a'' \<mapsto> ''1'']]\<rparr>, ''default'', ''a''))"
  by (simp add: eval_defs)

lemma example_read:
  "Read \<lparr>unread = ''a=1'' @ [CHR 0x0A], failure = EOF\<rparr> NewConfigFile =
     Some (None, \<lparr>data = [''default'' \<mapsto> [''a'' \<mapsto> ''1'']]\<rparr>)"
  using Read_loop_step[of "''a=1''" "[]" EOF "(NewConfigFile, ''default'', '''')"]
  by (simp add: Read_def TrimSpace_def isSpace_def example_option_line Read_loop_end)

lemma example_empty_header:
  "process_line ''[]'' (NewConfigFile, ''default'', '''') =
     Some (Inr (\<lparr>data = [''default'' \<mapsto> Map.empty, '''' \<mapsto> Map.empty]\<rparr>, '''', ''''))"
  by (simp add: eval_defs)

lemma example_no_separator:
  "process_line ''foo'' (NewConfigFile, ''default'', '''') =
     Some (Inl (ReadErr \<lparr>RReason = CouldNotParse, Line = ''foo''\<rparr>))"
  by (simp add: eval_defs)

section \<open>The reserved section\<close>

text \<open>
  C2. The reserved section \<open>default\<close> exists in the configuration that \<open>NewConfigFile\<close>
  returns and in every configuration that \<open>ReadConfigBytes\<close> or \<open>ReadConfigFile\<close> returns.
  From a configuration in which it exists, every sequence of \<open>AddSection\<close>,
  \<open>RemoveSection\<close>, \<open>AddOption\<close>, \<open>RemoveOption\<close> and \<open>Read\<close> runs without a panic and ends
  in a configuration in which it exists (for \<open>Read\<close> also when it returns an error). And
  \<open>RemoveSection\<close> on a name that lower-cases to \<open>default\<close> returns false and leaves the
  configuration as it is.
\<close>

theorem default_section_always_exists:
  "has_default NewConfigFile
   \<and> (ReadConfigBytes conf = Some (Inr c0) \<longrightarrow> has_default c0)
   \<and> (ReadConfigFile opened closed = Some (Inr c1) \<longrightarrow> has_default c1)
   \<and> (has_default c \<longrightarrow> (\<exists>c'. apply_operations ops c = Some c' \<and> has_default c'))
   \<and> (ToLower s = DefaultSection \<longrightarrow> RemoveSection s c = (False, c))"
proof (intro conjI impI)
  show "has_default NewConfigFile" by (rule NewConfigFile_default)
next
  assume a: "ReadConfigBytes conf = Some (Inr c0)"
  from Read_keeps_default[OF NewConfigFile_default, of "\<lparr>unread = conf, failure = EOF\<rparr>"] a
  show "has_default c0"
    by (auto simp: ReadConfigBytes_def split: option.splits)
next
  assume a: "ReadConfigFile opened closed = Some (Inr c1)"
  then obtain rd where "opened = Inr rd"
    by (cases opened) (auto simp: ReadConfigFile_def)
  with Read_keeps_default[OF NewConfigFile_default, of rd] a
  show "has_default c1"
    by (auto simp: ReadConfigFile_def split: option.splits)
next
  assume "has_default c"
  then show "\<exists>c'. apply_operations ops c = Some c' \<and> has_default c'"
    by (rule apply_operations_default)
next
  assume "ToLower s = DefaultSection"
  then show "RemoveSection s c = (False, c)"
    by (simp add: RemoveSection_def)
qed

theorem default_section_always_exists_witness:
  "has_default \<lparr>data = [''default'' \<mapsto> [''a'' \<mapsto> ''1'']]\<rparr>
   \<and> (\<exists>c'. apply_operations
          [OpRemoveSection ''DEFAULT'', OpAddOption ''s'' ''o'' ''v'', OpRemoveSection ''s'',
           OpRemoveOption ''default'' ''x'',
           OpRead \<lparr>unread = ''[]'' @ [CHR 0x0A] @ ''foo'' @ [CHR 0x0A], failure = EOF\<rparr>]
          NewConfigFile = Some c' \<and> has_default c')
   \<and> RemoveSection ''DEFAULT'' NewConfigFile = (False, NewConfigFile)"
proof -
  have h1: "ReadConfigBytes (''a=1'' @ [CHR 0x0A]) =
      Some (Inr \<lparr>data = [''default'' \<mapsto> [''a'' \<mapsto> ''1'']]\<rparr>)"
    using example_read by (simp add: ReadConfigBytes_def)
  have h2: "has_default NewConfigFile" by (rule NewConfigFile_default)
  have h3: "ToLower ''DEFAULT'' = DefaultSection"
    by (simp add: ToLower_def toLower_byte_def DefaultSection_def)
  from default_section_always_exists[where conf = "''a=1'' @ [CHR 0x0A]"
      and ?c0.0 = "\<lparr>data = [''default'' \<mapsto> [''a'' \<mapsto> ''1'']]\<rparr>"
      and c = NewConfigFile and s = "''DEFAULT''"] h1 h2 h3
  show ?thesis by blast
qed

section \<open>Names are case-insensitive\<close>

text \<open>
  C7. Let \<open>section'\<close> be a casing of \<open>section\<close> and \<open>option'\<close> a casing of \<open>option\<close>, that
  is, names with the same lower-casing. Then \<open>AddSection\<close> and \<open>AddOption\<close> with the primed
  names return the same result and configuration as with the lower-cased names. And after
  \<open>AddOption section option v\<close> the value \<open>v\<close> is the one stored under the lower-cased
  primed names, \<open>RemoveOption\<close> with the primed names finds it (returns true), and
  \<open>AddOption\<close> with the primed names overwrites it: it returns false and the value stored
  under the lower-cased first names is the new one.
\<close>

theorem storage_case_insensitive:
  assumes "ToLower section' = ToLower section" and "ToLower option' = ToLower option"
  shows "AddSection section' c = AddSection (ToLower section) c
    \<and> AddOption section' option' v c = AddOption (ToLower section) (ToLower option) v c
    \<and> (\<exists>r opts. AddOption section option v c = Some r
          \<and> data (snd r) (ToLower section') = Some opts \<and> opts (ToLower option') = Some v
          \<and> fst (RemoveOption section' option' (snd r)) = True
          \<and> (\<exists>r' opts'. AddOption section' option' v' (snd r) = Some r' \<and> fst r' = False
                \<and> data (snd r') (ToLower section) = Some opts'
                \<and> opts' (ToLower option) = Some v'))"
proof -
  define ls where "ls = ToLower section"
  define lo where "lo = ToLower option"
  have e: "ToLower section = ls" "ToLower section' = ls" "ToLower ls = ls"
    "ToLower option = lo" "ToLower option' = lo" "ToLower lo = lo"
    using assms by (simp_all add: ls_def lo_def ToLower_idem)
  show ?thesis
    unfolding assms ls_def[symmetric] lo_def[symmetric]
    by (simp add: AddSection_def AddOption_eq RemoveOption_def e Let_def
        cong: option.case_cong)
qed

theorem storage_case_insensitive_witness:
  "AddSection ''FOO'' NewConfigFile = AddSection ''foo'' NewConfigFile
   \<and> AddOption ''FOO'' ''bAR'' ''1'' NewConfigFile = AddOption ''foo'' ''bar'' ''1'' NewConfigFile
   \<and> (\<exists>r opts. AddOption ''Foo'' ''Bar'' ''1'' NewConfigFile = Some r
         \<and> data (snd r) ''foo'' = Some opts \<and> opts ''bar'' = Some ''1''
         \<and> fst (RemoveOption ''FOO'' ''bAR'' (snd r)) = True
         \<and> (\<exists>r' opts'. AddOption ''FOO'' ''bAR'' ''2'' (snd r) = Some r' \<and> fst r' = False
               \<and> data (snd r') ''foo'' = Some opts' \<and> opts' ''bar'' = Some ''2''))"
proof -
  have h1: "ToLower ''FOO'' = ToLower ''Foo''" by (simp add: ToLower_def toLower_byte_def)
  have h2: "ToLower ''bAR'' = ToLower ''Bar''" by (simp add: ToLower_def toLower_byte_def)
  have l1: "ToLower ''Foo'' = ''foo''" "ToLower ''FOO'' = ''foo''"
    "ToLower ''Bar'' = ''bar''" "ToLower ''bAR'' = ''bar''"
    by (simp_all add: ToLower_def toLower_byte_def)
  from storage_case_insensitive[OF h1 h2, of NewConfigFile "''1''" "''2''"]
  show ?thesis unfolding l1 .
qed

section \<open>Lines read in an empty section\<close>

text \<open>
  C1, as stated, fails: \<open>Read\<close> starts with the current section \<open>default\<close>, not with an
  empty one. The line \<open>a=1\<close> is not blank, not a comment and not a section header; as the
  first line of the input, before any section header, it is not refused: \<open>Read\<close> returns no
  error and the option is stored in the section \<open>default\<close>.
\<close>

theorem line_before_any_header_counterexample:
  "\<not> blank_or_comment ''a=1'' \<and> \<not> section_header ''a=1'' \<and>
   Read \<lparr>unread = ''a=1'' @ [CHR 0x0A], failure = EOF\<rparr> NewConfigFile =
     Some (None, \<lparr>data = [''default'' \<mapsto> [''a'' \<mapsto> ''1'']]\<rparr>)"
  using example_read
  by (simp add: blank_or_comment_def section_header_def ToLower_def toLower_byte_def)

text \<open>
  C1, amended. When a line that is not blank, not a comment and not a section header is
  read while the current section is the empty string, the loop body fails with the
  blank-section error carrying the trimmed line, and \<open>Read\<close> returns that error at once,
  the configuration being as it was before the line. \<open>Read\<close> starts with the current
  section \<open>default\<close>, so the current section is not empty before the first section header;
  it is empty after a header with an empty name, such as \<open>[]\<close>.
\<close>

theorem blank_section_error:
  assumes "CHR 0x0A \<notin> set raw" and "l = TrimSpace (raw @ [CHR 0x0A])"
    and "\<not> blank_or_comment l" and "\<not> section_header l"
  shows "process_line l (c, '''', option) =
           Some (Inl (ReadErr \<lparr>RReason = BlankSection, Line = l\<rparr>))
    \<and> Read_loop \<lparr>unread = raw @ CHR 0x0A # rest, failure = f\<rparr> (c, '''', option) =
           Some (Some (ReadErr \<lparr>RReason = BlankSection, Line = l\<rparr>), c)
    \<and> Read reader c = Read_loop reader (c, DefaultSection, '''')"
  using assms
  by (simp add: Read_loop_step process_line_blank_section Read_def DefaultSection_def)

theorem blank_section_error_witness:
  "ReadConfigBytes (''[]'' @ [CHR 0x0A] @ ''foo'' @ [CHR 0x0A]) =
     Some (Inl (ReadErr \<lparr>RReason = BlankSection, Line = ''foo''\<rparr>))"
proof -
  let ?c1 = "\<lparr>data = [''default'' \<mapsto> Map.empty, '''' \<mapsto> Map.empty]\<rparr>"
  have h1: "CHR 0x0A \<notin> set ''foo''" by simp
  have h2: "''foo'' = TrimSpace (''foo'' @ [CHR 0x0A])" by (simp add: TrimSpace_def isSpace_def)
  have h3: "\<not> blank_or_comment ''foo''"
    by (simp add: blank_or_comment_def ToLower_def toLower_byte_def)
  have h4: "\<not> section_header ''foo''" by (simp add: section_header_def)
  from blank_section_error[OF h1 h2 h3 h4, of ?c1 "''''" "[]" EOF]
  have "Read_loop \<lparr>unread = ''foo'' @ [CHR 0x0A], failure = EOF\<rparr> (?c1, '''', '''') =
      Some (Some (ReadErr \<lparr>RReason = BlankSection, Line = ''foo''\<rparr>), ?c1)"
    by simp
  with Read_loop_step[of "''[]''" "''foo'' @ [CHR 0x0A]" EOF "(NewConfigFile, ''default'', '''')"]
  show ?thesis
    by (simp add: ReadConfigBytes_def Read_def TrimSpace_def isSpace_def example_empty_header)
qed

section \<open>The end of the input and the first error\<close>

text \<open>Every input is a run of whole lines followed by a segment without line feed.\<close>

lemma input_split: "\<exists>pre t. s = pre @ t \<and> complete_lines pre \<and> CHR 0x0A \<notin> set t"
proof (induction s rule: rev_induct)
  case Nil
  show ?case by (simp add: complete_lines_def)
next
  case (snoc x xs)
  show ?case
  proof (cases "x = CHR 0x0A")
    case True
    then have "xs @ [x] = (xs @ [x]) @ [] \<and> complete_lines (xs @ [x]) \<and> CHR 0x0A \<notin> set []"
      by (simp add: complete_lines_def)
    then show ?thesis by blast
  next
    case False
    from snoc obtain pre t where "xs = pre @ t" "complete_lines pre" "CHR 0x0A \<notin> set t"
      by blast
    with False have "xs @ [x] = pre @ (t @ [x]) \<and> complete_lines pre \<and> CHR 0x0A \<notin> set (t @ [x])"
      by simp
    then show ?thesis by blast
  qed
qed

text \<open>
  C6. On a reader that ends with \<open>EOF\<close>, the bytes after the last line feed are dropped:
  for an input made of whole lines \<open>pre\<close> followed by a segment \<open>t\<close> without line feed,
  \<open>Read\<close> returns the same error (or none) and leaves the same configuration as on \<open>pre\<close>
  alone, whatever \<open>t\<close> is (by \<open>input_split\<close> every input has this form). In particular an
  input that is only such a segment gives success and an unchanged configuration.
\<close>

theorem unterminated_last_line_dropped:
  assumes "complete_lines pre" and "CHR 0x0A \<notin> set t"
  shows "Read \<lparr>unread = pre @ t, failure = EOF\<rparr> c = Read \<lparr>unread = pre, failure = EOF\<rparr> c
    \<and> Read \<lparr>unread = t, failure = EOF\<rparr> c = Some (None, c)"
  using assms by (simp add: Read_def Read_loop_unterminated Read_loop_end)

theorem unterminated_last_line_dropped_witness:
  "Read \<lparr>unread = (''a=1'' @ [CHR 0x0A]) @ ''b=2'', failure = EOF\<rparr> NewConfigFile =
     Some (None, \<lparr>data = [''default'' \<mapsto> [''a'' \<mapsto> ''1'']]\<rparr>)
   \<and> Read \<lparr>unread = ''b=2'', failure = EOF\<rparr> NewConfigFile = Some (None, NewConfigFile)"
proof -
  have h1: "complete_lines (''a=1'' @ [CHR 0x0A])" by (simp add: complete_lines_def)
  have h2: "CHR 0x0A \<notin> set ''b=2''" by simp
  from unterminated_last_line_dropped[OF h1 h2, of NewConfigFile] example_read
  show ?thesis by simp
qed

lemma Read_loop_good_lines:
  "(\<And>r. r \<in> set raws \<Longrightarrow> CHR 0x0A \<notin> set r) \<Longrightarrow> good_lines raws st = Some st' \<Longrightarrow>
   Read_loop \<lparr>unread = concat (map (\<lambda>r. r @ [CHR 0x0A]) raws) @ rest, failure = f\<rparr> st =
     Read_loop \<lparr>unread = rest, failure = f\<rparr> st'"
proof (induction raws arbitrary: st)
  case Nil
  then show ?case by simp
next
  case (Cons raw raws)
  from Cons.prems(1) have nl: "CHR 0x0A \<notin> set raw" by simp
  from Cons.prems(2) obtain st1 where
    pl: "process_line (TrimSpace (raw @ [CHR 0x0A])) st = Some (Inr st1)"
    and gl: "good_lines raws st1 = Some st'"
    by (auto split: option.splits sum.splits)
  have "Read_loop \<lparr>unread = concat (map (\<lambda>r. r @ [CHR 0x0A]) raws) @ rest, failure = f\<rparr> st1 =
     Read_loop \<lparr>unread = rest, failure = f\<rparr> st'"
    using Cons.prems(1) gl by (intro Cons.IH) auto
  with Read_loop_step[OF nl, of "concat (map (\<lambda>r. r @ [CHR 0x0A]) raws) @ rest" f st] pl
  show ?case by simp
qed

lemma example_header:
  "process_line ''[s]'' (NewConfigFile, ''default'', '''') =
     Some (Inr (\<lparr>data = [''default'' \<mapsto> Map.empty, ''s'' \<mapsto> Map.empty]\<rparr>, ''s'', ''''))"
  by (simp add: eval_defs)

lemma example_after_header:
  "process_line ''bar''
     (\<lparr>data = [''default'' \<mapsto> Map.empty, ''s'' \<mapsto> Map.empty]\<rparr>, ''s'', '''') =
     Some (Inl (ReadErr \<lparr>RReason = CouldNotParse, Line = ''bar''\<rparr>))"
  by (simp add: eval_defs)

text \<open>
  C10. \<open>Read\<close> always returns (no panic, no endless loop), with an error value or none.
  When the loop body fails on a line with the error \<open>e\<close>, \<open>Read\<close> returns \<open>e\<close> and the
  configuration is as it was before that line, whatever follows the line in the input.
  So when \<open>Read\<close> returns an error on an input of whole lines, it returns the same error
  and leaves the same configuration on every input that continues it, whatever the
  reader's end. The errors of the loop body are the two read errors, blank-section and
  could-not-parse, each carrying the trimmed line.

  The first erroneous line is found wherever it stands: when the lines \<open>raws\<close> are
  accepted one after the other from the initial state of \<open>Read\<close> and the line \<open>bad\<close> that
  follows them fails with the error \<open>eb\<close>, then \<open>Read\<close> returns \<open>eb\<close>, and the configuration
  it leaves is the one the lines \<open>raws\<close> have made, whatever follows \<open>bad\<close>. When no line
  fails, \<open>Read\<close> processes all of them and returns what the reader's end gives: no error
  at \<open>EOF\<close>, the reader's error otherwise.
\<close>

theorem Read_halts_on_first_error:
  "(\<exists>err c'. Read reader c = Some (err, c'))
   \<and> (CHR 0x0A \<notin> set raw \<longrightarrow> process_line (TrimSpace (raw @ [CHR 0x0A])) st = Some (Inl e) \<longrightarrow>
        Read_loop \<lparr>unread = raw @ CHR 0x0A # rest, failure = f\<rparr> st = Some (Some e, fst st))
   \<and> (complete_lines pre \<longrightarrow> Read \<lparr>unread = pre, failure = EOF\<rparr> c = Some (Some e', c') \<longrightarrow>
        Read \<lparr>unread = pre @ rest, failure = f\<rparr> c = Some (Some e', c'))
   \<and> (process_line l st = Some (Inl e) \<longrightarrow>
        e = ReadErr \<lparr>RReason = BlankSection, Line = l\<rparr> \<or>
        e = ReadErr \<lparr>RReason = CouldNotParse, Line = l\<rparr>)
   \<and> ((\<forall>r \<in> set raws. CHR 0x0A \<notin> set r) \<longrightarrow> CHR 0x0A \<notin> set bad \<longrightarrow>
        good_lines raws (c, ''default'', '''') = Some stg \<longrightarrow>
        process_line (TrimSpace (bad @ [CHR 0x0A])) stg = Some (Inl eb) \<longrightarrow>
        Read \<lparr>unread = concat (map (\<lambda>r. r @ [CHR 0x0A]) raws) @ bad @ CHR 0x0A # rest,
              failure = f\<rparr> c = Some (Some eb, fst stg))
   \<and> ((\<forall>r \<in> set raws. CHR 0x0A \<notin> set r) \<longrightarrow> CHR 0x0A \<notin> set t \<longrightarrow>
        good_lines raws (c, ''default'', '''') = Some stg \<longrightarrow>
        Read \<lparr>unread = concat (map (\<lambda>r. r @ [CHR 0x0A]) raws) @ t, failure = f\<rparr> c =
          Some (if f = EOF then None else Some f, fst stg))"
proof (intro conjI impI)
  show "\<exists>err c'. Read reader c = Some (err, c')"
    unfolding Read_def by (rule Read_loop_total)
next
  assume "CHR 0x0A \<notin> set raw" "process_line (TrimSpace (raw @ [CHR 0x0A])) st = Some (Inl e)"
  then show "Read_loop \<lparr>unread = raw @ CHR 0x0A # rest, failure = f\<rparr> st = Some (Some e, fst st)"
    by (simp add: Read_loop_step)
next
  assume "complete_lines pre" "Read \<lparr>unread = pre, failure = EOF\<rparr> c = Some (Some e', c')"
  then show "Read \<lparr>unread = pre @ rest, failure = f\<rparr> c = Some (Some e', c')"
    unfolding Read_def by (rule Read_loop_error_prefix)
next
  assume "process_line l st = Some (Inl e)"
  then show "e = ReadErr \<lparr>RReason = BlankSection, Line = l\<rparr> \<or>
        e = ReadErr \<lparr>RReason = CouldNotParse, Line = l\<rparr>"
    by (rule process_line_errors)
next
  assume a: "\<forall>r \<in> set raws. CHR 0x0A \<notin> set r" "CHR 0x0A \<notin> set bad"
    "good_lines raws (c, ''default'', '''') = Some stg"
    "process_line (TrimSpace (bad @ [CHR 0x0A])) stg = Some (Inl eb)"
  from a(1,3) have "Read \<lparr>unread = concat (map (\<lambda>r. r @ [CHR 0x0A]) raws) @ bad @ CHR 0x0A # rest,
              failure = f\<rparr> c = Read_loop \<lparr>unread = bad @ CHR 0x0A # rest, failure = f\<rparr> stg"
    unfolding Read_def by (intro Read_loop_good_lines) auto
  with a(2,4) show "Read \<lparr>unread = concat (map (\<lambda>r. r @ [CHR 0x0A]) raws) @ bad @ CHR 0x0A # rest,
              failure = f\<rparr> c = Some (Some eb, fst stg)"
    by (simp add: Read_loop_step)
next
  assume a: "\<forall>r \<in> set raws. CHR 0x0A \<notin> set r" "CHR 0x0A \<notin> set t"
    "good_lines raws (c, ''default'', '''') = Some stg"
  from a(1,3) have "Read \<lparr>unread = concat (map (\<lambda>r. r @ [CHR 0x0A]) raws) @ t, failure = f\<rparr> c =
      Read_loop \<lparr>unread = t, failure = f\<rparr> stg"
    unfolding Read_def by (intro Read_loop_good_lines) auto
  with a(2) show "Read \<lparr>unread = concat (map (\<lambda>r. r @ [CHR 0x0A]) raws) @ t, failure = f\<rparr> c =
          Some (if f = EOF then None else Some f, fst stg)"
    by (simp add: Read_loop_end)
qed

theorem Read_halts_on_first_error_witness:
  "Read \<lparr>unread = concat (map (\<lambda>r. r @ [CHR 0x0A]) [''[s]'']) @ ''bar'' @ CHR 0x0A # ''b=2'' @ [CHR 0x0A],
         failure = EOF\<rparr> NewConfigFile =
     Some (Some (ReadErr \<lparr>RReason = CouldNotParse, Line = ''bar''\<rparr>),
           \<lparr>data = [''default'' \<mapsto> Map.empty, ''s'' \<mapsto> Map.empty]\<rparr>)
   \<and> Read \<lparr>unread = (''foo'' @ [CHR 0x0A]) @ ''a=1'' @ [CHR 0x0A], failure = EOF\<rparr> NewConfigFile =
     Some (Some (ReadErr \<lparr>RReason = CouldNotParse, Line = ''foo''\<rparr>), NewConfigFile)"
proof -
  let ?e = "ReadErr \<lparr>RReason = CouldNotParse, Line = ''foo''\<rparr>"
  let ?E = "ReadErr \<lparr>RReason = CouldNotParse, Line = ''bar''\<rparr>"
  let ?S = "(\<lparr>data = [''default'' \<mapsto> Map.empty, ''s'' \<mapsto> Map.empty]\<rparr>, ''s'', '''')"
  have g1: "\<forall>r \<in> set [''[s]'']. CHR 0x0A \<notin> set r" by simp
  have g2: "CHR 0x0A \<notin> set ''bar''" by simp
  have g3: "good_lines [''[s]''] (NewConfigFile, ''default'', '''') = Some ?S"
    using example_header by (simp add: TrimSpace_def isSpace_def)
  have g4: "process_line (TrimSpace (''bar'' @ [CHR 0x0A])) ?S = Some (Inl ?E)"
    using example_after_header by (simp add: TrimSpace_def isSpace_def)
  have h1: "complete_lines (''foo'' @ [CHR 0x0A])" by (simp add: complete_lines_def)
  have h2: "Read \<lparr>unread = ''foo'' @ [CHR 0x0A], failure = EOF\<rparr> NewConfigFile =
      Some (Some ?e, NewConfigFile)"
    using Read_loop_step[of "''foo''" "[]" EOF "(NewConfigFile, ''default'', '''')"]
    by (simp add: Read_def TrimSpace_def isSpace_def example_no_separator)
  note inst1 = Read_halts_on_first_error[where c = NewConfigFile and pre = "''foo'' @ [CHR 0x0A]"
      and e' = ?e and c' = NewConfigFile and rest = "''a=1'' @ [CHR 0x0A]" and f = EOF
      and raws = "[''[s]'']" and bad = "''bar''" and stg = ?S and eb = ?E]
  from inst1 h1 h2 have A: "Read \<lparr>unread = (''foo'' @ [CHR 0x0A]) @ ''a=1'' @ [CHR 0x0A], failure = EOF\<rparr>
      NewConfigFile = Some (Some ?e, NewConfigFile)"
    by blast
  note inst2 = Read_halts_on_first_error[where c = NewConfigFile and rest = "''b=2'' @ [CHR 0x0A]"
      and f = EOF and raws = "[''[s]'']" and bad = "''bar''" and stg = ?S and eb = ?E]
  note B = inst2[THEN conjunct2, THEN conjunct2, THEN conjunct2, THEN conjunct2, THEN conjunct1,
      THEN mp, OF g1, THEN mp, OF g2, THEN mp, OF g3, THEN mp, OF g4]
  from A B show ?thesis by simp
qed

end
